theory Spec2Isabelle
  imports Main "HOL-Library.Word"
begin

unbundle bit_operations_syntax

text \<open>
  Version 8 UUIDs of the \<open>uuid\<close> package (\<open>version8.go\<close>): the three
  generators \<open>NewV8\<close>, \<open>NewV8FromReader\<close> and \<open>NewV8TimeBased\<close>, and the
  layout encoder \<open>makeV8\<close>, as functions on lists of bytes, with the
  random sources, the clock reading and the package variables as arguments.
\<close>

section \<open>Data model\<close>

text \<open>
  A \<open>UUID\<close> is Go's \<open>[16]byte\<close>; a slice of it is a list of bytes.  A
  freshly declared \<open>var uuid UUID\<close> holds sixteen zero bytes, and so does
  the package value \<open>Nil\<close>.
\<close>

type_synonym byte = "8 word"
type_synonym UUID = "byte list"

definition Nil_UUID :: UUID where
  "Nil_UUID = replicate 16 0"

text \<open>
  The package variables of \<open>version8.go\<close>: \<open>lastTimestamp uint64\<close> and
  \<open>sequence uint16\<close>, both zero when the process starts.
\<close>

record seq_state =
  lastTimestamp :: "64 word"
  sequence :: "16 word"

definition initial_state :: seq_state where
  "initial_state = \<lparr>lastTimestamp = 0, sequence = 0\<rparr>"

section \<open>The environment: slices, byte order, readers\<close>

text \<open>
  \<open>u[lo:hi]\<close> shares its bytes with \<open>u\<close>.  \<open>subslice\<close> reads the bytes of the
  window, \<open>slice_put\<close> writes bytes back at offset \<open>lo\<close>.
\<close>

definition subslice :: "byte list \<Rightarrow> nat \<Rightarrow> nat \<Rightarrow> byte list" where
  "subslice u lo hi = take (hi - lo) (drop lo u)"

definition slice_put :: "byte list \<Rightarrow> nat \<Rightarrow> byte list \<Rightarrow> byte list" where
  "slice_put u lo bs = take lo u @ bs @ drop (lo + length bs) u"

text \<open>
  Go's builtin \<open>copy(dst, src)\<close> moves \<open>min (len dst) (len src)\<close> bytes and
  reads the source as it was before the call, also when both overlap.  The
  result is the new content of \<open>dst\<close>.
\<close>

definition copy :: "byte list \<Rightarrow> byte list \<Rightarrow> byte list" where
  "copy dst src = take (length dst) src @ drop (length src) dst"

text \<open>
  \<open>binary.BigEndian.PutUint64(b, v)\<close> and \<open>PutUint16(b, v)\<close> store \<open>v\<close> in
  the first eight (two) bytes of \<open>b\<close>, most significant byte first; the
  callers below pass windows of a sixteen-byte array that are long enough.
\<close>

definition PutUint64 :: "byte list \<Rightarrow> 64 word \<Rightarrow> byte list" where
  "PutUint64 b v =
     [ucast (drop_bit 56 v), ucast (drop_bit 48 v), ucast (drop_bit 40 v),
      ucast (drop_bit 32 v), ucast (drop_bit 24 v), ucast (drop_bit 16 v),
      ucast (drop_bit 8 v), ucast v] @ drop 8 b"

definition PutUint16 :: "byte list \<Rightarrow> 16 word \<Rightarrow> byte list" where
  "PutUint16 b v = [ucast (drop_bit 8 v), ucast v] @ drop 2 b"

text \<open>
  An \<open>io.Reader\<close> is the bytes it can still deliver and the error it
  reports once they are used up.  \<open>io.ReadFull(r, buf)\<close> with
  \<open>n = len(buf)\<close> either delivers \<open>n\<close> bytes, or delivers the bytes that
  are left (the front of \<open>buf\<close> is overwritten by them) and fails; an
  \<open>EOF\<close> after some bytes is reported as \<open>ErrUnexpectedEOF\<close>.
\<close>

datatype error = EOF | ErrUnexpectedEOF | ReadError nat

datatype reader = Reader (pending: "byte list") (fault: error)

definition ReadFull :: "reader \<Rightarrow> nat \<Rightarrow> (byte list \<times> error option) \<times> reader" where
  "ReadFull r n =
     (if n \<le> length (pending r)
      then ((take n (pending r), None), Reader (drop n (pending r)) (fault r))
      else ((pending r,
             Some (if pending r \<noteq> [] \<and> fault r = EOF then ErrUnexpectedEOF else fault r)),
            Reader [] (fault r)))"

text \<open>
  Modelled from the spec: \<open>NewRandom\<close> (the random UUID generator, in a file
  that is not part of the sources at hand).  The spec treats it as the
  capability "produce 16 uniformly random bytes, fallibly" and has every
  generator return the Nil identifier with the error.  The reader is the
  package's random source.
\<close>

definition NewRandom :: "reader \<Rightarrow> (UUID \<times> error option) \<times> reader" where
  "NewRandom rander =
     (case ReadFull rander 16 of
        ((bs, Some e), r') \<Rightarrow> ((Nil_UUID, Some e), r')
      | ((bs, None), r') \<Rightarrow> ((bs, None), r'))"

text \<open>
  Modelled from the spec: \<open>randomBits\<close> (not part of the sources at hand).
  The spec gives the encoder no error path: a field without a supplied span
  "is filled with freshly drawn random bytes".  The supply is an unbounded
  sequence of bytes and the position of the next one.
\<close>

type_synonym rand_supply = "(nat \<Rightarrow> byte) \<times> nat"

definition randomBits :: "nat \<Rightarrow> rand_supply \<Rightarrow> byte list \<times> rand_supply" where
  "randomBits n g = (map (fst g) [snd g ..< snd g + n], (fst g, snd g + n))"

section \<open>The generators\<close>

text \<open>
  \<open>NewV8\<close>.  The argument is what the call \<open>NewRandom()\<close> returned: a UUID
  and an optional error.
\<close>

definition NewV8 :: "UUID \<times> error option \<Rightarrow> UUID \<times> error option" where
  "NewV8 nr =
     (case nr of
        (uuid, Some err) \<Rightarrow> (uuid, Some err)
      | (uuid, None) \<Rightarrow>
          (let uuid1 = uuid[6 := (uuid ! 6 AND 0x0F) OR 0x80];
               uuid2 = uuid1[8 := (uuid1 ! 8 AND 0x3F) OR 0x80]
           in (uuid2, None)))"

text \<open>
  \<open>NewV8FromReader(customA, customB, random)\<close>.  \<open>random\<close> is \<open>None\<close> for
  Go's \<open>nil\<close>; \<open>rander\<close> is the package's default source.  The reader that
  was used is returned as it is left.
\<close>

definition NewV8FromReader ::
  "64 word \<Rightarrow> 64 word \<Rightarrow> reader option \<Rightarrow> reader \<Rightarrow> (UUID \<times> error option) \<times> reader" where
  "NewV8FromReader customA customB random rander =
     (let uuid0 = replicate 16 0;
          uuid1 = slice_put uuid0 0 (PutUint64 (subslice uuid0 0 8) customA);
          uuid2 = slice_put uuid1 0 (copy (subslice uuid1 0 6) (subslice uuid1 2 8));
          uuid3 = uuid2[6 := (uuid2 ! 6 AND 0x0F) OR 0x80];
          uuid4 = slice_put uuid3 6
                    (PutUint16 (subslice uuid3 6 8) (ucast customB OR 0x8000));
          random' = (case random of None \<Rightarrow> rander | Some r \<Rightarrow> r)
      in case ReadFull random' (length (subslice uuid4 8 16)) of
           ((bs, Some err), r') \<Rightarrow> ((Nil_UUID, Some err), r')
         | ((bs, None), r') \<Rightarrow>
             (let uuid5 = slice_put uuid4 8 bs;
                  uuid6 = uuid5[8 := (uuid5 ! 8 AND 0x3F) OR 0x80]
              in ((uuid6, None), r')))"

text \<open>The loop \<open>for i := 10; i < 16; i++ { uuid[i] = 0 }\<close>.\<close>

function zero_loop :: "nat \<Rightarrow> byte list \<Rightarrow> byte list" where
  "zero_loop i uuid = (if i < 16 then zero_loop (i + 1) (uuid[i := 0]) else uuid)"
  by pat_completeness auto
termination
  by (relation "measure (\<lambda>(i, uuid). 16 - i)") auto

text \<open>
  \<open>NewV8TimeBased(random)\<close>.  \<open>now\<close> is \<open>uint64(time.Now().UnixNano())\<close>;
  the package variables come in as a \<open>seq_state\<close> and go out updated (the
  mutex makes the whole body one step).
\<close>

definition NewV8TimeBased ::
  "64 word \<Rightarrow> seq_state \<Rightarrow> reader option
     \<Rightarrow> (UUID \<times> error option) \<times> seq_state \<times> reader option" where
  "NewV8TimeBased now st random =
     (let uuid0 = replicate 16 0;
          timestamp = now;
          st' = (if timestamp = lastTimestamp st
                 then st\<lparr>sequence := sequence st + 1\<rparr>
                 else st\<lparr>lastTimestamp := timestamp, sequence := 0\<rparr>);
          uuid1 = slice_put uuid0 0 (PutUint64 (subslice uuid0 0 8) timestamp);
          uuid2 = slice_put uuid1 0 (copy (subslice uuid1 0 6) (subslice uuid1 2 8));
          uuid3 = uuid2[6 := (uuid2 ! 6 AND 0x0F) OR 0x80];
          uuid4 = uuid3[8 := (uuid3 ! 8 AND 0x3F) OR 0x80];
          uuid5 = slice_put uuid4 8 (PutUint16 (subslice uuid4 8 16) (sequence st'))
      in case random of
           None \<Rightarrow> ((zero_loop 10 uuid5, None), st', None)
         | Some r \<Rightarrow>
             (case ReadFull r (length (subslice uuid5 10 16)) of
                ((bs, Some err), r') \<Rightarrow> ((Nil_UUID, Some err), st', Some r')
              | ((bs, None), r') \<Rightarrow> ((slice_put uuid5 10 bs, None), st', Some r')))"

section \<open>The layout encoder\<close>

text \<open>
  \<open>makeV8\<close> writes into a slice of the caller, of any length, so every
  access is checked: an index or a slice bound beyond the length panics, and
  the panic leaves the buffer as it was at that moment.  A step maps the
  buffer and the random supply to the panic (with the state it happened in)
  or to the next state.
\<close>

datatype panic = IndexOutOfRange nat nat | SliceOutOfRange nat nat

type_synonym mstate = "byte list \<times> rand_supply"
type_synonym step = "mstate \<Rightarrow> (panic \<times> mstate) + mstate"

text \<open>\<open>_ = uuid[i]\<close>\<close>

definition bounds_check :: "nat \<Rightarrow> step" where
  "bounds_check i s =
     (if i < length (fst s) then Inr s
      else Inl (IndexOutOfRange i (length (fst s)), s))"

text \<open>\<open>uuid[i] = (uuid[i] & m) | v\<close>\<close>

definition stamp :: "nat \<Rightarrow> byte \<Rightarrow> byte \<Rightarrow> step" where
  "stamp i m v s =
     (if i < length (fst s)
      then Inr ((fst s)[i := ((fst s) ! i AND m) OR v], snd s)
      else Inl (IndexOutOfRange i (length (fst s)), s))"

text \<open>
  \<open>if src != nil { copy(uuid[lo:hi], src) } else { randomBits(uuid[lo:hi]) }\<close>;
  \<open>hi = None\<close> stands for the open bound of \<open>uuid[lo:]\<close>.  A \<open>nil\<close> span is
  \<open>None\<close>, an empty one \<open>Some []\<close>.
\<close>

definition fill :: "nat \<Rightarrow> nat option \<Rightarrow> byte list option \<Rightarrow> step" where
  "fill lo hi src s =
     (let u = fst s; h = (case hi of None \<Rightarrow> length u | Some h \<Rightarrow> h)
      in if length u < h then Inl (SliceOutOfRange h (length u), s)
         else if h < lo then Inl (SliceOutOfRange lo h, s)
         else (case src of
                 Some bs \<Rightarrow> Inr (slice_put u lo (copy (subslice u lo h) bs), snd s)
               | None \<Rightarrow>
                   (let (rs, g') = randomBits (length (subslice u lo h)) (snd s)
                    in Inr (slice_put u lo rs, g'))))"

text \<open>Statements in sequence: the first panic ends the run.\<close>

fun run :: "step list \<Rightarrow> step" where
  "run [] s = Inr s"
| "run (f # fs) s = (case f s of Inl p \<Rightarrow> Inl p | Inr s' \<Rightarrow> run fs s')"

definition makeV8 ::
  "byte list \<Rightarrow> byte list option \<Rightarrow> byte list option \<Rightarrow> byte list option
     \<Rightarrow> rand_supply \<Rightarrow> (panic \<times> mstate) + mstate" where
  "makeV8 uuid customA customB customC g =
     run [bounds_check 15,
          fill 0 (Some 6) customA,
          stamp 6 0x0F 0x80,
          fill 6 (Some 8) customB,
          stamp 8 0x3F 0x80,
          fill 8 None customC] (uuid, g)"

section \<open>Reading an identifier\<close>

text \<open>
  The documented layout: bit 0 is the most significant bit of byte 0, so the
  sixteen bytes read as one big-endian number, and the field of bits
  \<open>lo\<close> to \<open>hi\<close> is that number shifted and cut.  \<open>custom_a\<close> is bits
  0-47, \<open>ver\<close> bits 48-51, \<open>custom_b\<close> bits 52-63, \<open>var\<close> bits 64-65 and
  \<open>custom_c\<close> bits 66-127.
\<close>

definition be_nat :: "byte list \<Rightarrow> nat" where
  "be_nat bs = foldl (\<lambda>acc b. acc * 256 + unat b) 0 bs"

definition bit_field :: "UUID \<Rightarrow> nat \<Rightarrow> nat \<Rightarrow> nat" where
  "bit_field u lo hi = (be_nat u div 2 ^ (127 - hi)) mod 2 ^ (hi + 1 - lo)"

definition custom_a :: "UUID \<Rightarrow> nat" where
  "custom_a u = bit_field u 0 47"

definition custom_b :: "UUID \<Rightarrow> nat" where
  "custom_b u = bit_field u 52 63"

definition custom_c :: "UUID \<Rightarrow> nat" where
  "custom_c u = bit_field u 66 127"

text \<open>The top nibble of byte 6 and the top two bits of byte 8.\<close>

definition version_nibble :: "UUID \<Rightarrow> byte" where
  "version_nibble u = drop_bit 4 (u ! 6)"

definition variant_bits :: "UUID \<Rightarrow> byte" where
  "variant_bits u = drop_bit 6 (u ! 8)"

section \<open>What the generators compute\<close>

text \<open>
  The straight-line code of the generators, evaluated once and for all: the
  sixteen bytes each of them returns, as expressions in the arguments.
\<close>

lemma zero16: "replicate 16 (0::byte) = [0,0,0,0,0,0,0,0,0,0,0,0,0,0,0,0]"
  by (simp add: numeral_eq_Suc)

lemma field_a_bytes:
  "slice_put (slice_put (replicate 16 0) 0 (PutUint64 (subslice (replicate 16 0) 0 8) t)) 0
     (copy (subslice (slice_put (replicate 16 0) 0 (PutUint64 (subslice (replicate 16 0) 0 8) t)) 0 6)
           (subslice (slice_put (replicate 16 0) 0 (PutUint64 (subslice (replicate 16 0) 0 8) t)) 2 8))
   = [ucast (drop_bit 40 t), ucast (drop_bit 32 t), ucast (drop_bit 24 t),
      ucast (drop_bit 16 t), ucast (drop_bit 8 t), ucast t, ucast (drop_bit 8 t), ucast t,
      0,0,0,0,0,0,0,0]"
  by (simp add: zero16 subslice_def slice_put_def copy_def PutUint64_def)

lemma zero_loop_10:
  "zero_loop 10 [b0,b1,b2,b3,b4,b5,b6,b7,b8,b9,b10,b11,b12,b13,b14,b15]
     = [b0,b1,b2,b3,b4,b5,b6,b7,b8,b9,0,0,0,0,0,0]"
  by (simp add: numeral_eq_Suc)

lemma NewV8TimeBased_state:
  "fst (snd (NewV8TimeBased t st random)) =
     (if t = lastTimestamp st then st\<lparr>sequence := sequence st + 1\<rparr>
      else st\<lparr>lastTimestamp := t, sequence := 0\<rparr>)"
  by (simp add: NewV8TimeBased_def Let_def split: option.splits prod.splits)

lemma NewV8TimeBased_nil:
  "fst (NewV8TimeBased t st None) =
     ([ucast (drop_bit 40 t), ucast (drop_bit 32 t), ucast (drop_bit 24 t),
       ucast (drop_bit 16 t), ucast (drop_bit 8 t), ucast t,
       (ucast (drop_bit 8 t) AND 0x0F) OR 0x80, ucast t,
       ucast (drop_bit 8 (if t = lastTimestamp st then sequence st + 1 else 0)),
       ucast (if t = lastTimestamp st then sequence st + 1 else 0),
       0, 0, 0, 0, 0, 0], None)"
  unfolding NewV8TimeBased_def Let_def field_a_bytes
  by (simp add: subslice_def slice_put_def PutUint16_def zero_loop_10 del: zero_loop.simps)

lemma NewV8TimeBased_reader:
  "fst (NewV8TimeBased t st (Some r)) =
     (if 6 \<le> length (pending r)
      then ([ucast (drop_bit 40 t), ucast (drop_bit 32 t), ucast (drop_bit 24 t),
             ucast (drop_bit 16 t), ucast (drop_bit 8 t), ucast t,
             (ucast (drop_bit 8 t) AND 0x0F) OR 0x80, ucast t,
             ucast (drop_bit 8 (if t = lastTimestamp st then sequence st + 1 else 0)),
             ucast (if t = lastTimestamp st then sequence st + 1 else 0)]
            @ take 6 (pending r), None)
      else (Nil_UUID, snd (fst (ReadFull r 6))))"
  unfolding NewV8TimeBased_def Let_def field_a_bytes
  apply (simp add: subslice_def slice_put_def PutUint16_def ReadFull_def)
  apply (simp add: eval_nat_numeral)
  done

lemma NewV8FromReader_shape:
  "fst (NewV8FromReader a b random rander) =
     (let r = (case random of None \<Rightarrow> rander | Some r \<Rightarrow> r) in
      if 8 \<le> length (pending r)
      then ([ucast (drop_bit 40 a), ucast (drop_bit 32 a), ucast (drop_bit 24 a),
             ucast (drop_bit 16 a), ucast (drop_bit 8 a), ucast a,
             ucast (drop_bit 8 (ucast b OR (0x8000 :: 16 word))),
             ucast (ucast b OR (0x8000 :: 16 word)),
             (hd (pending r) AND 0x3F) OR 0x80]
            @ take 7 (tl (pending r)), None)
      else (Nil_UUID, snd (fst (ReadFull r 8))))"
  unfolding NewV8FromReader_def Let_def field_a_bytes
  apply (simp add: subslice_def slice_put_def PutUint16_def ReadFull_def)
  apply (cases "pending (case random of None \<Rightarrow> rander | Some r \<Rightarrow> r)")
  apply (auto simp: take_Cons')
  apply (simp add: eval_nat_numeral)
  done

section \<open>Bytes as numbers\<close>

lemma be_nat_append: "be_nat (xs @ ys) = be_nat xs * 256 ^ length ys + be_nat ys"
proof -
  have step: "foldl (\<lambda>acc b. acc * 256 + unat b) n ys
                = n * 256 ^ length ys + foldl (\<lambda>acc b. acc * 256 + unat b) 0 ys"
    for n :: nat and ys :: "byte list"
  proof (induction ys rule: rev_induct)
    case Nil show ?case by simp
  next
    case (snoc y ys) then show ?case by (simp add: algebra_simps)
  qed
  from step [of "be_nat xs" ys] show ?thesis by (simp add: be_nat_def)
qed

lemma be_nat_less: "be_nat ys < 256 ^ length ys"
proof (induction ys rule: rev_induct)
  case Nil show ?case by (simp add: be_nat_def)
next
  case (snoc y ys)
  have "unat y < 256" using unsigned_less [of y, where 'a = nat] by simp
  with snoc show ?case by (simp add: be_nat_append) (simp add: be_nat_def)
qed


lemma unat_drop_bit_div: "unat (drop_bit k (w :: 'a::len word)) = unat w div 2 ^ k"
  unfolding unat_drop_bit_eq by (rule drop_bit_eq_div)

lemma unat_ucast_byte: "unat (ucast (w :: 'a::len word) :: byte) = unat w mod 256"
  by (simp add: unsigned_ucast_eq take_bit_eq_mod)

lemma split_byte: "(x::nat) mod (m * 256) = m * (x div m mod 256) + x mod m"
  by (rule mod_mult2_eq)

lemma be_nat_6:
  "be_nat [ucast (drop_bit 40 a), ucast (drop_bit 32 a), ucast (drop_bit 24 a),
           ucast (drop_bit 16 a), ucast (drop_bit 8 a), ucast (a::64 word)]
     = unat a mod 2 ^ 48"
proof -
  define x where "x = unat a"
  have h2: "x mod 2 ^ 16 = 2 ^ 8 * (x div 2 ^ 8 mod 256) + x mod 256"
    using split_byte [of x "2 ^ 8"] by simp
  have h3: "x mod 2 ^ 24 = 2 ^ 16 * (x div 2 ^ 16 mod 256) + x mod 2 ^ 16"
    using split_byte [of x "2 ^ 16"] by simp
  have h4: "x mod 2 ^ 32 = 2 ^ 24 * (x div 2 ^ 24 mod 256) + x mod 2 ^ 24"
    using split_byte [of x "2 ^ 24"] by simp
  have h5: "x mod 2 ^ 40 = 2 ^ 32 * (x div 2 ^ 32 mod 256) + x mod 2 ^ 32"
    using split_byte [of x "2 ^ 32"] by simp
  have h6: "x mod 2 ^ 48 = 2 ^ 40 * (x div 2 ^ 40 mod 256) + x mod 2 ^ 40"
    using split_byte [of x "2 ^ 40"] by simp
  have "be_nat [ucast (drop_bit 40 a), ucast (drop_bit 32 a), ucast (drop_bit 24 a),
           ucast (drop_bit 16 a), ucast (drop_bit 8 a), ucast a]
        = 2 ^ 40 * (x div 2 ^ 40 mod 256) + 2 ^ 32 * (x div 2 ^ 32 mod 256)
          + 2 ^ 24 * (x div 2 ^ 24 mod 256) + 2 ^ 16 * (x div 2 ^ 16 mod 256)
          + 2 ^ 8 * (x div 2 ^ 8 mod 256) + x mod 256"
    by (simp add: be_nat_def unat_ucast_byte unat_drop_bit_div x_def)
  also have "\<dots> = x mod 2 ^ 48"
    unfolding h6 h5 h4 h3 h2 by simp
  finally show ?thesis by (simp add: x_def)
qed

lemma be_nat_2:
  "be_nat [ucast (drop_bit 8 w), ucast (w::16 word)] = unat w"
proof -
  have "unat w < 2 ^ 16" using unsigned_less [of w, where 'a = nat] by simp
  then have "unat w div 256 < 256" by simp
  then show ?thesis
    by (simp add: be_nat_def unat_ucast_byte unat_drop_bit_div)
qed

lemma low12: "unat (ucast (b::64 word) OR (0x8000 :: 16 word)) mod 2 ^ 12 = unat b mod 2 ^ 12"
proof -
  have "take_bit 12 (ucast b OR (0x8000 :: 16 word)) = take_bit 12 (ucast b :: 16 word)"
    by (rule bit_eqI) (auto simp: bit_simps)
  then have "take_bit 12 (unat (ucast b OR (0x8000 :: 16 word)))
               = take_bit 12 (unat (ucast b :: 16 word))"
    by (metis unsigned_take_bit_eq)
  also have "unat (ucast b :: 16 word) = take_bit 16 (unat b)"
    by (simp add: unsigned_ucast_eq)
  also have "take_bit 12 (take_bit 16 (unat b)) = take_bit 12 (unat b)"
    by simp
  finally show ?thesis by (simp add: take_bit_eq_mod)
qed

lemma low6: "unat ((r :: byte) AND 0x3F OR 0x80) mod 2 ^ 6 = unat r mod 2 ^ 6"
proof -
  have a: "r AND 0x3F = take_bit 6 r"
    by (simp add: take_bit_eq_mask mask_eq_exp_minus_1)
  have "take_bit 6 (r AND 0x3F OR 0x80) = take_bit 6 r"
    unfolding a by (rule bit_eqI) (auto simp: bit_simps)
  then have "take_bit 6 (unat (r AND 0x3F OR 0x80)) = take_bit 6 (unat r)"
    by (metis unsigned_take_bit_eq)
  then show ?thesis by (simp add: take_bit_eq_mod)
qed

lemma be_nat_Cons: "be_nat (x # xs) = unat x * 256 ^ length xs + be_nat xs"
proof -
  have "be_nat [x] = unat x" by (simp add: be_nat_def)
  with be_nat_append [of "[x]" xs] show ?thesis by simp
qed

lemma field_mod_hi:
  "(hi * 2 ^ 56 + lo) mod 2 ^ 62 = ((hi mod 2 ^ 6) * 2 ^ 56 + lo) mod (2 ^ 62 :: nat)"
proof -
  have "(hi * 2 ^ 56) mod (2 ^ 62 :: nat) = (hi mod 2 ^ 6) * 2 ^ 56"
    using mult_mod_right [of "2 ^ 56" hi "2 ^ 6 :: nat"] by (simp add: mult.commute)
  then show ?thesis by (metis mod_add_left_eq)
qed

section \<open>Lengths, bounds and failing reads\<close>

lemma ReadFull_error:
  "snd (fst (ReadFull r n)) = Some e \<Longrightarrow> length (pending r) < n"
  by (simp add: ReadFull_def split: if_splits)

lemma copy_length: "length (copy dst src) = length dst"
  by (simp add: copy_def)

lemma slice_put_length:
  "lo + length bs \<le> length u \<Longrightarrow> length (slice_put u lo bs) = length u"
  by (simp add: slice_put_def)

lemma subslice_length:
  "lo \<le> h \<Longrightarrow> h \<le> length u \<Longrightarrow> length (subslice u lo h) = h - lo"
  by (simp add: subslice_def)

lemma fill_in_bounds:
  assumes "lo \<le> h" and "h \<le> length (fst s)"
    and "hi = Some h \<or> (hi = None \<and> h = length (fst s))"
  shows "\<exists>s'. fill lo hi src s = Inr s' \<and> length (fst s') = length (fst s)"
proof -
  have h: "(case hi of None \<Rightarrow> length (fst s) | Some h \<Rightarrow> h) = h"
    using assms(3) by auto
  have l: "length (subslice (fst s) lo h) = h - lo"
    using assms(1,2) by (rule subslice_length)
  show ?thesis
  proof (cases src)
    case (Some bs)
    have "length (slice_put (fst s) lo (copy (subslice (fst s) lo h) bs)) = length (fst s)"
      using assms(1,2) by (simp add: slice_put_length copy_length l)
    with Some assms(1,2) show ?thesis by (simp add: fill_def Let_def h)
  next
    case None
    have "length (slice_put (fst s) lo (fst (randomBits (h - lo) (snd s)))) = length (fst s)"
      using assms(1,2) by (simp add: slice_put_length randomBits_def)
    with None assms(1,2) show ?thesis
      by (simp add: fill_def Let_def h l split: prod.splits) auto
  qed
qed

lemma stamp_in_bounds:
  "i < length (fst s) \<Longrightarrow>
     \<exists>s'. stamp i m v s = Inr s' \<and> length (fst s') = length (fst s)"
  by (simp add: stamp_def)

text \<open>
  With no span supplied the sixteen bytes \<open>makeV8\<close> leaves in the buffer
  are the sixteen random bytes, in the order they were drawn.
\<close>

lemma makeV8_all_random:
  "makeV8 (replicate 16 0) None None None (f, 0)
     = Inr (map f [0 ..< 16], (f, 16))"
  apply (simp add: makeV8_def bounds_check_def fill_def stamp_def randomBits_def
           subslice_def slice_put_def copy_def zero16)
  apply (simp add: numeral_eq_Suc upt_rec)
  done

section \<open>Where the marker bits are kept\<close>

text \<open>
  \<open>(x & 0x0F) | 0x80\<close> has top nibble \<open>1000\<close> and \<open>(x & 0x3F) | 0x80\<close> has
  top bits \<open>10\<close>.  \<open>NewV8\<close> ends with both assignments, and
  \<open>NewV8FromReader\<close> ends with the second.
\<close>

lemma version_stamp: "drop_bit 4 (((x::byte) AND 0x0F) OR 0x80) = 8"
proof -
  have a: "x AND 0x0F = take_bit 4 x"
    by (simp add: take_bit_eq_mask mask_eq_exp_minus_1)
  have "drop_bit 4 (take_bit 4 x OR 0x80) = drop_bit 4 (take_bit 4 x) OR drop_bit 4 (0x80 :: byte)"
    by (rule bit_eqI) (simp add: bit_simps)
  then show ?thesis unfolding a by (simp add: drop_bit_take_bit)
qed

lemma variant_stamp: "drop_bit 6 (((x::byte) AND 0x3F) OR 0x80) = 2"
proof -
  have a: "x AND 0x3F = take_bit 6 x"
    by (simp add: take_bit_eq_mask mask_eq_exp_minus_1)
  have "drop_bit 6 (take_bit 6 x OR 0x80) = drop_bit 6 (take_bit 6 x) OR drop_bit 6 (0x80 :: byte)"
    by (rule bit_eqI) (simp add: bit_simps)
  then show ?thesis unfolding a by (simp add: drop_bit_take_bit)
qed

lemma NewV8_stamped:
  assumes "length u = 16"
  shows "snd (NewV8 (u, None)) = None \<and>
         version_nibble (fst (NewV8 (u, None))) = 8 \<and>
         variant_bits (fst (NewV8 (u, None))) = 2"
  using assms
  by (simp add: NewV8_def Let_def version_nibble_def variant_bits_def version_stamp variant_stamp)

text \<open>On an error \<open>NewV8\<close> hands on what \<open>NewRandom\<close> returned.\<close>

lemma NewV8_forwards_error: "NewV8 (u, Some e) = (u, Some e)"
  by (simp add: NewV8_def)

text \<open>
  \<open>NewV8TimeBased\<close> stores the sequence number in bytes 8-9 after the
  variant is set, so a call in a new tick returns byte 8 = 0.
\<close>

lemma NewV8TimeBased_new_tick_byte8:
  "t \<noteq> lastTimestamp st \<Longrightarrow> fst (fst (NewV8TimeBased t st None)) ! 8 = 0"
  by (simp add: NewV8TimeBased_nil)

lemma NewV8FromReader_variant:
  "fst (NewV8FromReader a b random rander) = (u, None) \<Longrightarrow> variant_bits u = 2"
  by (auto simp: NewV8FromReader_shape Let_def variant_bits_def variant_stamp ReadFull_def
           split: if_splits)

section \<open>The marker bits\<close>

text \<open>
  Claim C1.  The property: every identifier a generator returns without an
  error, and every buffer \<open>makeV8\<close> has filled, has \<open>1000\<close> as the top
  nibble of byte 6 and \<open>10\<close> as the top two bits of byte 8.  The code does
  not keep it.  \<open>NewV8TimeBased\<close> writes the sequence number over byte 8
  after it has set the variant there: the first call in a tick returns
  byte 8 = 0.  \<open>NewV8FromReader\<close> stores \<open>uint16(customB) | 0x8000\<close> in bytes
  6-7 without masking \<open>customB\<close>: with \<open>customB = 0x1000\<close> the top nibble of
  byte 6 is 9.  \<open>makeV8\<close> fills bytes 6-7 and 8-15 after it has set the
  marker bits there: with all-zero random bytes both markers are 0.
\<close>

theorem C1_marker_bits_lost:
  "snd (fst (NewV8TimeBased 1700000000000000000 initial_state None)) = None \<and>
   variant_bits (fst (fst (NewV8TimeBased 1700000000000000000 initial_state None))) = 0 \<and>
   snd (fst (NewV8FromReader 0 0x1000 (Some (Reader (replicate 8 0) EOF)) d)) = None \<and>
   version_nibble (fst (fst (NewV8FromReader 0 0x1000 (Some (Reader (replicate 8 0) EOF)) d))) = 9 \<and>
   (case makeV8 (replicate 16 0) None None None (\<lambda>i. 0, 0) of
      Inl p \<Rightarrow> False
    | Inr s \<Rightarrow> version_nibble (fst s) = 0 \<and> variant_bits (fst s) = 0)"
  by (simp add: NewV8TimeBased_nil NewV8FromReader_shape initial_state_def
        variant_bits_def version_nibble_def makeV8_all_random)

section \<open>The order of filling and stamping in \<open>makeV8\<close>\<close>

text \<open>
  Claim C2.  The property: \<open>makeV8\<close> sets the version nibble of byte 6 and
  the variant bits of byte 8 after all three fields are written, so that the
  marker bits survive whatever the fields hold.  The code sets byte 6 before
  it fills \<open>uuid[6:8]\<close> and byte 8 before it fills \<open>uuid[8:]\<close>, so the fills
  overwrite the markers: with supplied spans of zero bytes the buffer comes
  back all zero.
\<close>

theorem C2_fills_overwrite_stamps:
  "makeV8 (replicate 16 0) (Some (replicate 6 0)) (Some [0, 0]) (Some (replicate 8 0)) g
     = Inr (replicate 16 0, g)"
  by (simp add: makeV8_def bounds_check_def fill_def stamp_def
        subslice_def slice_put_def copy_def zero16)

section \<open>The high bits of \<open>customB\<close>\<close>

text \<open>
  Claim C3.  The property: \<open>NewV8FromReader\<close> ignores every bit of
  \<open>customB\<close> above bit 11, so its result depends on \<open>customB mod 2 ^ 12\<close>
  only.  The code does not mask: \<open>0x1000\<close> and \<open>0\<close> agree modulo \<open>2 ^ 12\<close>,
  yet with the same random bytes the first gives byte 6 = \<open>0x90\<close> and the
  second byte 6 = \<open>0x80\<close>.
\<close>

theorem C3_high_bits_of_customB_leak:
  "unat (0x1000 :: 64 word) mod 2 ^ 12 = unat (0 :: 64 word) mod 2 ^ 12 \<and>
   fst (NewV8FromReader 0 0x1000 (Some (Reader (replicate 8 0) EOF)) d)
     = ([0, 0, 0, 0, 0, 0, 0x90, 0, 0x80, 0, 0, 0, 0, 0, 0, 0], None) \<and>
   fst (NewV8FromReader 0 0 (Some (Reader (replicate 8 0) EOF)) d)
     = ([0, 0, 0, 0, 0, 0, 0x80, 0, 0x80, 0, 0, 0, 0, 0, 0, 0], None)"
  by (simp add: NewV8FromReader_shape) (simp add: numeral_eq_Suc)

section \<open>The sequence state\<close>

text \<open>
  Claim C4.  Every call of \<open>NewV8TimeBased\<close>, whatever random source it is
  given and whether or not that source fails, leaves the package variables
  as follows.  If the tick \<open>t\<close> it observed equals \<open>lastTimestamp\<close>, then
  \<open>lastTimestamp\<close> is unchanged and \<open>sequence\<close> is the old value plus one
  modulo \<open>2 ^ 16\<close>.  Otherwise, also when \<open>t\<close> is smaller than
  \<open>lastTimestamp\<close>, \<open>lastTimestamp\<close> becomes \<open>t\<close> and \<open>sequence\<close> becomes 0.
\<close>

theorem C4_sequence_state_update:
  "let st' = fst (snd (NewV8TimeBased t st random)) in
     if t = lastTimestamp st
     then lastTimestamp st' = lastTimestamp st \<and>
          unat (sequence st') = (unat (sequence st) + 1) mod 2 ^ 16
     else lastTimestamp st' = t \<and> sequence st' = 0"
  by (simp add: NewV8TimeBased_state Let_def unat_word_ariths)

section \<open>Two calls in one tick\<close>

text \<open>
  What two successive calls in one tick do return: if the tick differs from
  \<open>lastTimestamp\<close> before the first call and both calls succeed, bytes 8-9
  are \<open>00 00\<close> in the first result and \<open>00 01\<close> in the second, and
  bytes 0-5 agree.  Bytes 8-9 are bits 64-79: the two variant bits and the
  first fourteen bits of \<open>custom_c\<close>.
\<close>

lemma NewV8TimeBased_same_tick_bytes:
  assumes "lastTimestamp st0 \<noteq> t"
    and "fst (NewV8TimeBased t st0 r1) = (u1, None)"
    and "fst (NewV8TimeBased t (fst (snd (NewV8TimeBased t st0 r1))) r2) = (u2, None)"
  shows "u1 ! 8 = 0 \<and> u1 ! 9 = 0 \<and> u2 ! 8 = 0 \<and> u2 ! 9 = 1 \<and> take 6 u1 = take 6 u2"
proof -
  define st1 where "st1 = fst (snd (NewV8TimeBased t st0 r1))"
  have "st1 = st0\<lparr>lastTimestamp := t, sequence := 0\<rparr>"
    using NewV8TimeBased_state [of t st0 r1] assms(1) by (simp add: st1_def)
  then have last1: "lastTimestamp st1 = t" and seq1: "sequence st1 = 0" by simp_all
  note o1 = assms(2)
  have o2: "fst (NewV8TimeBased t st1 r2) = (u2, None)" using assms(3) by (simp add: st1_def)
  have first: "u1 ! 8 = 0 \<and> u1 ! 9 = 0"
  proof (cases r1)
    case None with o1 assms(1) show ?thesis by (auto simp: NewV8TimeBased_nil)
  next
    case (Some r) with o1 assms(1) show ?thesis
      by (auto simp: NewV8TimeBased_reader ReadFull_def split: if_splits)
  qed
  have second: "u2 ! 8 = 0 \<and> u2 ! 9 = 1"
  proof (cases r2)
    case None with o2 last1 seq1 show ?thesis by (auto simp: NewV8TimeBased_nil)
  next
    case (Some r) with o2 last1 seq1 show ?thesis
      by (auto simp: NewV8TimeBased_reader ReadFull_def split: if_splits)
  qed
  have a1: "take 6 u1 = [ucast (drop_bit 40 t), ucast (drop_bit 32 t), ucast (drop_bit 24 t),
       ucast (drop_bit 16 t), ucast (drop_bit 8 t), ucast t]"
  proof (cases r1)
    case None with o1 show ?thesis by (auto simp: NewV8TimeBased_nil)
  next
    case (Some r) with o1 show ?thesis
      by (auto simp: NewV8TimeBased_reader ReadFull_def split: if_splits)
  qed
  have a2: "take 6 u2 = [ucast (drop_bit 40 t), ucast (drop_bit 32 t), ucast (drop_bit 24 t),
       ucast (drop_bit 16 t), ucast (drop_bit 8 t), ucast t]"
  proof (cases r2)
    case None with o2 show ?thesis by (auto simp: NewV8TimeBased_nil)
  next
    case (Some r) with o2 show ?thesis
      by (auto simp: NewV8TimeBased_reader ReadFull_def split: if_splits)
  qed
  from first second a1 a2 show ?thesis by simp
qed


section \<open>The worked example of \<open>NewV8FromReader\<close>\<close>

text \<open>
  Claim C6, as stated: for \<open>customA = 0x0102030405\<close>, \<open>customB = 0x0AB\<close> and
  a random source of zero bytes, the first eight bytes of the result are
  \<open>01 02 03 04 05 80 AB\<close>.  These are seven bytes; they are neither the
  first eight bytes of the result nor its first seven.
\<close>

theorem C6_expected_bytes_counterexample:
  "take 8 (fst (fst (NewV8FromReader 0x0102030405 0x0AB
                        (Some (Reader (replicate 8 0) EOF)) (Reader [] EOF))))
     \<noteq> [0x01, 0x02, 0x03, 0x04, 0x05, 0x80, 0xAB] \<and>
   take 7 (fst (fst (NewV8FromReader 0x0102030405 0x0AB
                        (Some (Reader (replicate 8 0) EOF)) (Reader [] EOF))))
     \<noteq> [0x01, 0x02, 0x03, 0x04, 0x05, 0x80, 0xAB]"
  by (simp add: NewV8FromReader_shape)

text \<open>
  Claim C6, amended: for \<open>customA = 0x0102030405\<close>, \<open>customB = 0x0AB\<close> and
  a random source whose first eight bytes are zero, the call succeeds and
  the first eight bytes of the result are \<open>00 01 02 03 04 05 80 AB\<close>: the
  48-bit field holds \<open>customA\<close> with a leading zero byte.
\<close>

theorem C6_first_eight_bytes:
  "snd (fst (NewV8FromReader 0x0102030405 0x0AB
               (Some (Reader (replicate 8 0 @ rest) e)) d)) = None \<and>
   take 8 (fst (fst (NewV8FromReader 0x0102030405 0x0AB
                        (Some (Reader (replicate 8 0 @ rest) e)) d)))
     = [0x00, 0x01, 0x02, 0x03, 0x04, 0x05, 0x80, 0xAB]"
  by (simp add: NewV8FromReader_shape)

section \<open>Failing random sources\<close>

text \<open>
  Claim C7.  When the random source cannot deliver the bytes a generator
  asks for (16 for \<open>NewV8\<close> through \<open>NewRandom\<close>, 8 for
  \<open>NewV8FromReader\<close>, whether the source is the supplied or the default
  one, 6 for \<open>NewV8TimeBased\<close> with a supplied source), the generator
  returns the all-zero \<open>Nil\<close> identifier together with the error of the
  read; the bytes read so far are not returned.
\<close>

theorem C7_failure_returns_Nil:
  "(snd (fst (ReadFull r 16)) = Some e \<longrightarrow>
      NewV8 (fst (NewRandom r)) = (Nil_UUID, Some e)) \<and>
   (snd (fst (ReadFull r 8)) = Some e \<longrightarrow>
      fst (NewV8FromReader customA customB (Some r) rander) = (Nil_UUID, Some e) \<and>
      fst (NewV8FromReader customA customB None r) = (Nil_UUID, Some e)) \<and>
   (snd (fst (ReadFull r 6)) = Some e \<longrightarrow>
      fst (NewV8TimeBased t st (Some r)) = (Nil_UUID, Some e))"
proof (intro conjI impI)
  assume "snd (fst (ReadFull r 16)) = Some e"
  then show "NewV8 (fst (NewRandom r)) = (Nil_UUID, Some e)"
    by (cases "ReadFull r 16") (auto simp: NewV8_def NewRandom_def)
next
  assume a: "snd (fst (ReadFull r 8)) = Some e"
  from ReadFull_error [OF a] a
  show "fst (NewV8FromReader customA customB (Some r) rander) = (Nil_UUID, Some e)"
    by (simp add: NewV8FromReader_shape)
  from ReadFull_error [OF a] a
  show "fst (NewV8FromReader customA customB None r) = (Nil_UUID, Some e)"
    by (simp add: NewV8FromReader_shape)
next
  assume a: "snd (fst (ReadFull r 6)) = Some e"
  from ReadFull_error [OF a] a
  show "fst (NewV8TimeBased t st (Some r)) = (Nil_UUID, Some e)"
    by (simp add: NewV8TimeBased_reader)
qed

theorem C7_failure_returns_Nil_witness:
  "snd (fst (ReadFull (Reader [1, 2, 3] EOF) 16)) = Some ErrUnexpectedEOF \<and>
   snd (fst (ReadFull (Reader [1, 2, 3] EOF) 8)) = Some ErrUnexpectedEOF \<and>
   snd (fst (ReadFull (Reader [1, 2, 3] EOF) 6)) = Some ErrUnexpectedEOF \<and>
   NewV8 (fst (NewRandom (Reader [1, 2, 3] EOF))) = (Nil_UUID, Some ErrUnexpectedEOF) \<and>
   fst (NewV8FromReader 5 7 (Some (Reader [1, 2, 3] EOF)) (Reader [] EOF))
     = (Nil_UUID, Some ErrUnexpectedEOF) \<and>
   fst (NewV8FromReader 5 7 None (Reader [1, 2, 3] EOF)) = (Nil_UUID, Some ErrUnexpectedEOF) \<and>
   fst (NewV8TimeBased 9 initial_state (Some (Reader [1, 2, 3] EOF)))
     = (Nil_UUID, Some ErrUnexpectedEOF)"
  using C7_failure_returns_Nil [of "Reader [1, 2, 3] EOF" ErrUnexpectedEOF 5 7 "Reader [] EOF"
          9 initial_state]
  by (simp add: ReadFull_def)

section \<open>Round trip\<close>

text \<open>
  Claim C8.  Whenever \<open>NewV8FromReader\<close> succeeds, for every \<open>customA\<close>,
  every \<open>customB\<close> and every random source (the supplied one, or the
  default one when none is supplied), reading the result at the documented
  bit positions gives \<open>customA mod 2 ^ 48\<close> in bits 0-47,
  \<open>customB mod 2 ^ 12\<close> in bits 52-63, and in bits 66-127 the low 62 bits of
  the eight bytes that were read from the random source.
\<close>

theorem C8_round_trip:
  assumes ok: "fst (NewV8FromReader a b random rander) = (u, None)"
  shows "custom_a u = unat a mod 2 ^ 48 \<and>
         custom_b u = unat b mod 2 ^ 12 \<and>
         custom_c u =
           be_nat (take 8 (pending (case random of None \<Rightarrow> rander | Some r \<Rightarrow> r))) mod 2 ^ 62"
proof -
  define p where "p = pending (case random of None \<Rightarrow> rander | Some r \<Rightarrow> r)"
  define A where "A = [ucast (drop_bit 40 a), ucast (drop_bit 32 a), ucast (drop_bit 24 a),
             ucast (drop_bit 16 a), ucast (drop_bit 8 a), ucast a :: byte]"
  define B where "B = [ucast (drop_bit 8 (ucast b OR (0x8000 :: 16 word))),
             ucast (ucast b OR (0x8000 :: 16 word)) :: byte]"
  define C where "C = ((hd p AND 0x3F) OR 0x80) # take 7 (tl p)"
  have len: "8 \<le> length p"
  proof (rule ccontr)
    assume "\<not> 8 \<le> length p"
    then have "snd (fst (NewV8FromReader a b random rander)) = snd (fst (ReadFull (case random of None \<Rightarrow> rander | Some r \<Rightarrow> r) 8))"
      by (simp add: NewV8FromReader_shape Let_def p_def)
    with \<open>\<not> 8 \<le> length p\<close> ok show False
      by (simp add: ReadFull_def p_def)
  qed
  then have u: "u = A @ B @ C"
    using ok by (simp add: NewV8FromReader_shape Let_def p_def A_def B_def C_def)
  have lC: "length C = 8" using len by (simp add: C_def)
  have lB: "length B = 2" by (simp add: B_def)
  have bA: "be_nat A = unat a mod 2 ^ 48" unfolding A_def by (rule be_nat_6)
  have bB: "be_nat B = unat (ucast b OR (0x8000 :: 16 word))" unfolding B_def by (rule be_nat_2)
  have "be_nat (B @ C) < 256 ^ 10"
    using be_nat_less [of "B @ C"] by (simp add: lB lC)
  then have "be_nat u div 2 ^ 80 = be_nat A"
    by (simp add: u be_nat_append [of A] lB lC)
  then have ca: "custom_a u = unat a mod 2 ^ 48"
    by (simp add: custom_a_def bit_field_def bA)
  have "be_nat C < 256 ^ 8" using be_nat_less [of C] by (simp add: lC)
  then have "be_nat u div 2 ^ 64 = be_nat A * 65536 + be_nat B"
    using be_nat_append [of "A @ B" C] be_nat_append [of A B] by (simp add: u lB lC)
  then have "custom_b u = (be_nat A * 65536 + be_nat B) mod 4096"
    by (simp add: custom_b_def bit_field_def)
  also have "\<dots> = be_nat B mod 4096"
  proof -
    have "be_nat A * 65536 = (be_nat A * 16) * 4096" by simp
    then show ?thesis by (metis mod_mult_self3)
  qed
  finally have cb: "custom_b u = unat b mod 2 ^ 12"
    using low12 [of b] by (simp add: bB)
  obtain r0 rs where p: "p = r0 # rs" and lrs: "7 \<le> length rs"
    using len by (cases p) auto
  have t8: "take 8 p = r0 # take 7 rs" by (simp add: p take_Cons')
  have Ceq: "C = ((r0 AND 0x3F) OR 0x80) # take 7 rs" by (simp add: C_def p)
  have bC: "be_nat C = unat ((r0 AND 0x3F) OR 0x80) * 2 ^ 56 + be_nat (take 7 rs)"
    using lrs by (simp add: Ceq be_nat_Cons min_absorb2)
  have bP: "be_nat (take 8 p) = unat r0 * 2 ^ 56 + be_nat (take 7 rs)"
    using lrs by (simp add: t8 be_nat_Cons min_absorb2)
  have "be_nat u mod 2 ^ 62 = be_nat C mod 2 ^ 62"
  proof -
    have "be_nat u = (be_nat (A @ B) * 4) * 2 ^ 62 + be_nat C"
      using be_nat_append [of "A @ B" C] by (simp add: u lC)
    then show ?thesis by (metis mod_mult_self3)
  qed
  also have "\<dots> = be_nat (take 8 p) mod 2 ^ 62"
    unfolding bC bP
    using field_mod_hi [of "unat ((r0 AND 0x3F) OR 0x80)" "be_nat (take 7 rs)"]
          field_mod_hi [of "unat r0" "be_nat (take 7 rs)"] low6 [of r0]
    by simp
  finally have cc: "custom_c u = be_nat (take 8 p) mod 2 ^ 62"
    by (simp add: custom_c_def bit_field_def)
  from ca cb cc show ?thesis by (simp add: p_def)
qed

theorem C8_round_trip_witness:
  "fst (NewV8FromReader 0xABCD0102030405 0xFAB
          (Some (Reader [0xFF, 1, 2, 3, 4, 5, 6, 7] EOF)) (Reader [] EOF))
     = ([0xCD, 1, 2, 3, 4, 5, 0x8F, 0xAB, 0xBF, 1, 2, 3, 4, 5, 6, 7], None) \<and>
   custom_a [0xCD, 1, 2, 3, 4, 5, 0x8F, 0xAB, 0xBF, 1, 2, 3, 4, 5, 6, 7] = 0xCD0102030405 \<and>
   custom_b [0xCD, 1, 2, 3, 4, 5, 0x8F, 0xAB, 0xBF, 1, 2, 3, 4, 5, 6, 7] = 0xFAB \<and>
   custom_c [0xCD, 1, 2, 3, 4, 5, 0x8F, 0xAB, 0xBF, 1, 2, 3, 4, 5, 6, 7] = 0x3F01020304050607"
proof -
  have h: "fst (NewV8FromReader 0xABCD0102030405 0xFAB
                  (Some (Reader [0xFF, 1, 2, 3, 4, 5, 6, 7] EOF)) (Reader [] EOF))
             = ([0xCD, 1, 2, 3, 4, 5, 0x8F, 0xAB, 0xBF, 1, 2, 3, 4, 5, 6, 7], None)"
    by (simp add: NewV8FromReader_shape)
  from C8_round_trip [OF h] h show ?thesis
    by (simp add: be_nat_def)
qed

section \<open>Errors of \<open>NewV8TimeBased\<close>\<close>

text \<open>
  Claim C9.  \<open>NewV8TimeBased\<close> returns an error exactly when a random
  source is supplied and reading six bytes from it fails.  Without a random
  source the call succeeds, the result has sixteen bytes and bytes 10-15 are
  zero.
\<close>

theorem C9_error_iff_reader_fails:
  "(snd (fst (NewV8TimeBased t st random)) \<noteq> None)
     = (\<exists>r. random = Some r \<and> snd (fst (ReadFull r 6)) \<noteq> None) \<and>
   snd (fst (NewV8TimeBased t st None)) = None \<and>
   length (fst (fst (NewV8TimeBased t st None))) = 16 \<and>
   drop 10 (fst (fst (NewV8TimeBased t st None))) = [0, 0, 0, 0, 0, 0]"
proof -
  have "(snd (fst (NewV8TimeBased t st random)) \<noteq> None)
          = (\<exists>r. random = Some r \<and> snd (fst (ReadFull r 6)) \<noteq> None)"
  proof (cases random)
    case None then show ?thesis by (simp add: NewV8TimeBased_nil)
  next
    case (Some r) then show ?thesis
      by (simp add: NewV8TimeBased_reader ReadFull_def)
  qed
  then show ?thesis by (simp add: NewV8TimeBased_nil)
qed

section \<open>Bounds of \<open>makeV8\<close>\<close>

text \<open>
  Claim C10.  For a buffer of at least 16 bytes no access of \<open>makeV8\<close> is
  out of range: the call runs to its end and the buffer keeps its length.
  For a shorter buffer the first statement, the read of \<open>uuid[15]\<close>, panics
  with index 15 out of range, and the buffer and the random supply are still
  as they were passed in.
\<close>

theorem C10_makeV8_bounds:
  "(16 \<le> length uuid \<longrightarrow>
      (\<exists>u' g'. makeV8 uuid customA customB customC g = Inr (u', g') \<and>
                length u' = length uuid)) \<and>
   (length uuid < 16 \<longrightarrow>
      makeV8 uuid customA customB customC g
        = Inl (IndexOutOfRange 15 (length uuid), (uuid, g)))"
proof (intro conjI impI)
  assume len: "16 \<le> length uuid"
  define s0 where "s0 = (uuid, g)"
  have l0: "length (fst s0) = length uuid" by (simp add: s0_def)
  have b: "bounds_check 15 s0 = Inr s0" using len by (simp add: bounds_check_def s0_def)
  obtain s1 where f1: "fill 0 (Some 6) customA s0 = Inr s1"
    and l1: "length (fst s1) = length uuid"
    using fill_in_bounds [of 0 6 s0 "Some 6" customA] len l0 by auto
  obtain s2 where f2: "stamp 6 0x0F 0x80 s1 = Inr s2"
    and l2: "length (fst s2) = length uuid"
    using stamp_in_bounds [of 6 s1 "0x0F" "0x80"] len l1 by auto
  obtain s3 where f3: "fill 6 (Some 8) customB s2 = Inr s3"
    and l3: "length (fst s3) = length uuid"
    using fill_in_bounds [of 6 8 s2 "Some 8" customB] len l2 by auto
  obtain s4 where f4: "stamp 8 0x3F 0x80 s3 = Inr s4"
    and l4: "length (fst s4) = length uuid"
    using stamp_in_bounds [of 8 s3 "0x3F" "0x80"] len l3 by auto
  obtain s5 where f5: "fill 8 None customC s4 = Inr s5"
    and l5: "length (fst s5) = length uuid"
    using fill_in_bounds [of 8 "length (fst s4)" s4 None customC] len l4 by auto
  have "makeV8 uuid customA customB customC g = Inr s5"
    by (simp add: makeV8_def b [unfolded s0_def] f1 [unfolded s0_def] f2 f3 f4 f5)
  with l5 show "\<exists>u' g'. makeV8 uuid customA customB customC g = Inr (u', g') \<and>
                length u' = length uuid"
    by (cases s5) simp
next
  assume "length uuid < 16"
  then show "makeV8 uuid customA customB customC g
        = Inl (IndexOutOfRange 15 (length uuid), (uuid, g))"
    by (simp add: makeV8_def bounds_check_def)
qed

theorem C10_makeV8_bounds_witness:
  "16 \<le> length (replicate 16 (0::byte)) \<and>
   (\<exists>u' g'. makeV8 (replicate 16 0) None (Some [1, 2]) None (\<lambda>i. 7, 0) = Inr (u', g') \<and>
             length u' = length (replicate 16 (0::byte))) \<and>
   length [1, 2, 3 :: byte] < 16 \<and>
   makeV8 [1, 2, 3] None (Some [1, 2]) None (\<lambda>i. 7, 0)
     = Inl (IndexOutOfRange 15 3, ([1, 2, 3], (\<lambda>i. 7, 0)))"
  using C10_makeV8_bounds [of "replicate 16 0" None "Some [1, 2]" None "(\<lambda>i. 7, 0)"]
        C10_makeV8_bounds [of "[1, 2, 3]" None "Some [1, 2]" None "(\<lambda>i. 7, 0)"]
  by simp

end
